theory Spec2Isabelle
  imports Main "HOL-Library.Word"
begin

section \<open>The clipboard backend and \<open>Read\<close>\<close>

text \<open>
  \<open>Format\<close> is a Go \<open>int\<close> with two named values; any other integer is a format the
  package does not know. Go's \<open>[]byte\<close> is a byte list or \<open>nil\<close>, modelled as
  \<open>char list option\<close> with \<open>None\<close> for \<open>nil\<close> (a \<open>char\<close> is one byte). A Go
  \<open>string\<close> is a byte sequence, modelled as \<open>string\<close>.
\<close>

type_synonym Format = int

definition FmtText :: Format where
  "FmtText = 0"

definition FmtImage :: Format where
  "FmtImage = 1"

datatype error = errUnavailable | errUnsupported

text \<open>
  The native functions \<open>clipboard_read_string\<close>, \<open>clipboard_read_image\<close> and
  \<open>clipboard_change_count\<close> are only declared in the cgo preamble. A \<open>pasteboard\<close> is what
  they answer at one instant: the change count, and for each of the two read functions the
  pointer stored through \<open>out\<close> (\<open>NULL\<close> when nothing was stored, otherwise the memory
  found at that address) together with the returned \<open>unsigned int\<close>.
\<close>

datatype pointer = NULL | Addr "nat \<Rightarrow> char"

record pasteboard =
  clipboard_change_count :: int
  clipboard_read_string :: "pointer \<times> 32 word"
  clipboard_read_image :: "pointer \<times> 32 word"

datatype 'a outcome = Returns 'a | Panics

text \<open>
  \<open>C.GoBytes(data, C.int(n))\<close> copies \<open>n\<close> bytes starting at \<open>data\<close>; the Go runtime
  panics on a negative length.
\<close>

definition GoBytes :: "(nat \<Rightarrow> char) \<Rightarrow> int \<Rightarrow> char list outcome" where
  "GoBytes mem n = (if n < 0 then Panics else Returns (map mem [0..<nat n]))"

text \<open>The \<open>switch t\<close> of \<open>Read\<close>: no case is taken for an unknown format.\<close>

definition native_read :: "pasteboard \<Rightarrow> Format \<Rightarrow> pointer \<times> 32 word" where
  "native_read pb t =
     (if t = FmtText then clipboard_read_string pb
      else if t = FmtImage then clipboard_read_image pb
      else (NULL, 0))"

definition Read :: "pasteboard \<Rightarrow> Format \<Rightarrow> (char list option \<times> error option) outcome" where
  "Read pb t =
     (case native_read pb t of
        (NULL, n) \<Rightarrow> Returns (None, Some errUnavailable)
      | (Addr mem, n) \<Rightarrow>
          if n = 0 then Returns (None, None)
          else (case GoBytes mem (sint n) of
                  Panics \<Rightarrow> Panics
                | Returns bs \<Rightarrow> Returns (Some bs, None)))"

text \<open>Go's \<open>len\<close> of a byte slice: the \<open>nil\<close> slice has length 0.\<close>

fun len :: "char list option \<Rightarrow> nat" where
  "len None = 0"
| "len (Some bs) = length bs"

section \<open>Goroutines, channels and events\<close>

text \<open>
  A watch goroutine is either waiting in its \<open>select\<close>, parked in the channel send
  \<open>recv <- v\<close> (holding the local variables that are live after the send), has returned,
  or has panicked. What makes it move is an event: the \<open>select\<close> takes the ticker case
  (with the inputs that tick reads from its environment), the \<open>select\<close> takes the
  \<open>ctx.Done()\<close> case, or the consumer receives from the output channel.
\<close>

datatype 'k pc = AtSelect | AtSend 'k | Exited | Panicked

datatype 'i event = Tick 'i | CtxDone | Receive

section \<open>\<open>Watch\<close>\<close>

text \<open>
  \<open>w_recv\<close> is the content of the channel \<open>make(chan []byte, 1)\<close>, oldest first.
  \<open>w_reads\<close> counts the calls of \<open>Read\<close> and \<open>w_sent\<close> lists the values whose send
  has completed; neither is read by the code. The ticker of \<open>Watch\<close> keeps its period of
  100ms and is not part of the session.
\<close>

record watch_session =
  w_lastCount :: int
  w_recv :: "char list option list"
  w_closed :: bool
  w_pc :: "(char list option \<times> int) pc"
  w_reads :: nat
  w_sent :: "char list option list"

definition Watch :: "pasteboard \<Rightarrow> watch_session" where
  "Watch pb =
     \<lparr>w_lastCount = clipboard_change_count pb, w_recv = [], w_closed = False,
      w_pc = AtSelect, w_reads = 0, w_sent = []\<rparr>"

text \<open>The statements after \<open>recv <- b\<close>.\<close>

definition Watch_sent :: "watch_session \<Rightarrow> char list option \<Rightarrow> int \<Rightarrow> watch_session" where
  "Watch_sent s b this =
     s\<lparr>w_recv := w_recv s @ [b], w_sent := w_sent s @ [b],
       w_lastCount := this, w_pc := AtSelect\<rparr>"

text \<open>The body of \<open>case <-ti.C\<close>. A send on a channel whose buffer is full parks the goroutine.\<close>

definition Watch_tick :: "Format \<Rightarrow> watch_session \<Rightarrow> pasteboard \<Rightarrow> watch_session" where
  "Watch_tick t s pb =
     (let this = clipboard_change_count pb in
      if w_lastCount s \<noteq> this then
        (case Read pb t of
           Panics \<Rightarrow> s\<lparr>w_reads := w_reads s + 1, w_pc := Panicked\<rparr>
         | Returns (b, err) \<Rightarrow>
             let s1 = s\<lparr>w_reads := w_reads s + 1\<rparr> in
             if b = None then s1
             else if length (w_recv s1) < 1 then Watch_sent s1 b this
             else s1\<lparr>w_pc := AtSend (b, this)\<rparr>)
      else s)"

text \<open>
  One event. At the \<open>select\<close>, a tick runs the body above and \<open>CtxDone\<close> closes the
  channel and returns. A goroutine parked in the send handles neither: it is not at the
  \<open>select\<close>. A receive takes the oldest value of the channel; when the goroutine is
  parked, this makes room, its value enters the channel and it goes on with the statements
  after the send, which touch its own variables only and are run in the same step.
\<close>

definition Watch_step :: "Format \<Rightarrow> watch_session \<Rightarrow> pasteboard event \<Rightarrow> watch_session" where
  "Watch_step t s ev =
     (case w_pc s of
        AtSelect \<Rightarrow>
          (case ev of
             Tick pb \<Rightarrow> Watch_tick t s pb
           | CtxDone \<Rightarrow> s\<lparr>w_closed := True, w_pc := Exited\<rparr>
           | Receive \<Rightarrow> s\<lparr>w_recv := tl (w_recv s)\<rparr>)
      | AtSend (b, this) \<Rightarrow>
          (case ev of
             Receive \<Rightarrow> Watch_sent (s\<lparr>w_recv := tl (w_recv s)\<rparr>) b this
           | _ \<Rightarrow> s)
      | _ \<Rightarrow>
          (case ev of
             Receive \<Rightarrow> s\<lparr>w_recv := tl (w_recv s)\<rparr>
           | _ \<Rightarrow> s))"

fun Watch_run :: "Format \<Rightarrow> watch_session \<Rightarrow> pasteboard event list \<Rightarrow> watch_session" where
  "Watch_run t s [] = s"
| "Watch_run t s (ev # evs) = Watch_run t (Watch_step t s ev) evs"

section \<open>\<open>AdaptWatchDoubleText\<close>\<close>

text \<open>
  \<open>ti\<close> is the period of the ticker in milliseconds, \<open>recv\<close> the content of
  \<open>make(chan string, 1)\<close>. A tick reads the pasteboard and \<open>time.Now().UnixMilli()\<close>.
  As for \<open>Watch\<close>, \<open>reads\<close> counts the calls of \<open>Read\<close> and \<open>sent\<close> lists the
  strings whose send has completed. The steps are those of \<open>Watch\<close>; a parked send
  keeps \<open>text\<close>, \<open>this\<close> and \<open>currMill\<close>.
\<close>

record adapt_session =
  lastCount :: int
  missCount :: int
  lastText :: string
  lastMill :: int
  ti :: nat
  recv :: "string list"
  closed :: bool
  pc :: "(string \<times> int \<times> int) pc"
  reads :: nat
  sent :: "string list"

definition AdaptWatchDoubleText :: "pasteboard \<Rightarrow> int \<Rightarrow> adapt_session" where
  "AdaptWatchDoubleText pb now =
     \<lparr>lastCount = clipboard_change_count pb, missCount = 0, lastText = [],
      lastMill = now, ti = 200, recv = [], closed = False, pc = AtSelect,
      reads = 0, sent = []\<rparr>"

text \<open>The second \<open>if\<close> of the tick: \<open>if lastCount == this { missCount++ ... }\<close>.\<close>

definition Adapt_miss :: "adapt_session \<Rightarrow> int \<Rightarrow> adapt_session" where
  "Adapt_miss s this =
     (if lastCount s = this then
        (let s1 = s\<lparr>missCount := missCount s + 1\<rparr> in
         if missCount s1 = 50 \<or> missCount s1 > 100
         then s1\<lparr>ti := 200, missCount := 0\<rparr>
         else s1)
      else s)"

text \<open>
  The end of the first \<open>if\<close>, from \<open>lastMill = currMill\<close> on, followed by the second
  \<open>if\<close>.
\<close>

definition Adapt_accept :: "adapt_session \<Rightarrow> int \<Rightarrow> int \<Rightarrow> adapt_session" where
  "Adapt_accept s this currMill =
     Adapt_miss (s\<lparr>lastMill := currMill, lastCount := this, ti := 100, missCount := 0\<rparr>) this"

text \<open>The statements after \<open>recv <- text\<close>.\<close>

definition Adapt_sent :: "adapt_session \<Rightarrow> string \<Rightarrow> int \<Rightarrow> int \<Rightarrow> adapt_session" where
  "Adapt_sent s text this currMill =
     Adapt_accept
       (s\<lparr>recv := recv s @ [text], sent := sent s @ [text], lastText := [], pc := AtSelect\<rparr>)
       this currMill"

definition Adapt_tick :: "adapt_session \<Rightarrow> pasteboard \<Rightarrow> int \<Rightarrow> adapt_session" where
  "Adapt_tick s pb now =
     (let this = clipboard_change_count pb in
      if lastCount s \<noteq> this then
        (case Read pb FmtText of
           Panics \<Rightarrow> s\<lparr>reads := reads s + 1, pc := Panicked\<rparr>
         | Returns (b, err) \<Rightarrow>
             let s1 = s\<lparr>reads := reads s + 1\<rparr> in
             (case b of
                None \<Rightarrow> s1
              | Some text \<Rightarrow>
                  if text = [] then s1
                  else
                    let currMill = now in
                    if text = lastText s1 \<and> currMill - lastMill s1 < 500 then
                      (if length (recv s1) < 1 then Adapt_sent s1 text this currMill
                       else s1\<lparr>pc := AtSend (text, this, currMill)\<rparr>)
                    else Adapt_accept (s1\<lparr>lastText := text\<rparr>) this currMill))
      else Adapt_miss s this)"

definition Adapt_step :: "adapt_session \<Rightarrow> (pasteboard \<times> int) event \<Rightarrow> adapt_session" where
  "Adapt_step s ev =
     (case pc s of
        AtSelect \<Rightarrow>
          (case ev of
             Tick (pb, now) \<Rightarrow> Adapt_tick s pb now
           | CtxDone \<Rightarrow> s\<lparr>closed := True, pc := Exited\<rparr>
           | Receive \<Rightarrow> s\<lparr>recv := tl (recv s)\<rparr>)
      | AtSend (text, this, currMill) \<Rightarrow>
          (case ev of
             Receive \<Rightarrow> Adapt_sent (s\<lparr>recv := tl (recv s)\<rparr>) text this currMill
           | _ \<Rightarrow> s)
      | _ \<Rightarrow>
          (case ev of
             Receive \<Rightarrow> s\<lparr>recv := tl (recv s)\<rparr>
           | _ \<Rightarrow> s))"

fun Adapt_run :: "adapt_session \<Rightarrow> (pasteboard \<times> int) event list \<Rightarrow> adapt_session" where
  "Adapt_run s [] = s"
| "Adapt_run s (ev # evs) = Adapt_run (Adapt_step s ev) evs"

section \<open>The consumer: \<open>handle\<close> and \<open>handleNum\<close>\<close>

text \<open>
  What the consumer does is a list of actions. \<open>NotifyTime num\<close> is the notification of
  \<open>handleS num\<close>, showing \<open>time.Unix(num, 0)\<close> as a local date and time.
  \<open>strconv.ParseInt\<close> and \<open>dateparse.ParseLocal\<close> belong to other packages and are
  parameters: \<open>ParseInt s\<close> is the number \<open>strconv.ParseInt(s, 10, 64)\<close> returns (0 on a
  syntax error), \<open>ParseLocal s\<close> the Unix time of the parsed date, or \<open>None\<close> on error.
\<close>

datatype action = NotifyTime int | LogError | WriteText int | NotifyCopied int

text \<open>Go's integer division truncates towards zero.\<close>

definition quo :: "int \<Rightarrow> int \<Rightarrow> int" where
  "quo a b = sgn a * sgn b * (\<bar>a\<bar> div \<bar>b\<bar>)"

definition handleS :: "int \<Rightarrow> action list" where
  "handleS num = [NotifyTime num]"

definition handleNum :: "int \<Rightarrow> action list" where
  "handleNum num =
     (if num > 10000000 \<and> num < 10013221020 then handleS num else []) @
     (if num > 10013221020 \<and> num < 2101322102000 then handleS (quo num 1000) else [])"

definition handleText :: "(string \<Rightarrow> int option) \<Rightarrow> string \<Rightarrow> action list" where
  "handleText ParseLocal s =
     (case ParseLocal s of
        None \<Rightarrow> [LogError]
      | Some ts \<Rightarrow> [WriteText ts, NotifyCopied ts])"

definition handle :: "(string \<Rightarrow> int) \<Rightarrow> (string \<Rightarrow> int option) \<Rightarrow> string \<Rightarrow> action list" where
  "handle ParseInt ParseLocal s =
     (if length s > 40 then []
      else
        let n = ParseInt s in
        if n > 0 then handleNum n else handleText ParseLocal s)"

section \<open>Sample pasteboards\<close>

text \<open>
  \<open>text_pb c s\<close> is a pasteboard with change count \<open>c\<close> whose string read stores a
  pointer to the bytes of \<open>s\<close> and returns their number, and which has no image;
  \<open>absent_pb c\<close> has no content in either format; \<open>empty_image_pb c s\<close> is
  \<open>text_pb c s\<close> with an image that is present and empty.
\<close>

definition text_pb :: "int \<Rightarrow> string \<Rightarrow> pasteboard" where
  "text_pb c s =
     \<lparr>clipboard_change_count = c,
      clipboard_read_string =
        (Addr (\<lambda>i. if i < length s then s ! i else CHR ''?''), word_of_nat (length s)),
      clipboard_read_image = (NULL, 0)\<rparr>"

definition absent_pb :: "int \<Rightarrow> pasteboard" where
  "absent_pb c =
     \<lparr>clipboard_change_count = c,
      clipboard_read_string = (NULL, 0),
      clipboard_read_image = (NULL, 0)\<rparr>"

definition empty_image_pb :: "int \<Rightarrow> string \<Rightarrow> pasteboard" where
  "empty_image_pb c s =
     (text_pb c s)\<lparr>clipboard_read_image := (Addr (\<lambda>i. CHR ''?''), 0)\<rparr>"

text \<open>
  Two sessions whose channel is full: \<open>full_watch\<close> after one emission, and
  \<open>full_adapt\<close> after one confirmed emission followed by a new candidate \<open>a\<close>.
\<close>

definition full_watch :: watch_session where
  "full_watch = Watch_run FmtText (Watch (absent_pb 0)) [Tick (text_pb 1 ''a'')]"

definition full_adapt :: adapt_session where
  "full_adapt =
     Adapt_run (AdaptWatchDoubleText (absent_pb 0) 0)
       [Tick (text_pb 1 ''a'', 0), Tick (text_pb 2 ''a'', 100), Tick (text_pb 3 ''a'', 200)]"

section \<open>Counting reads and counter changes\<close>

text \<open>
  \<open>tick_counts\<close> lists the counter values of the ticks of a run, \<open>increases\<close> counts
  the strict increases between neighbours of a list and \<open>changes\<close> the places where
  neighbours differ. \<open>sampled\<close> is the counter value a session sampled last: \<open>this\<close>
  while it is parked in the send, \<open>lastCount\<close> otherwise.
\<close>

fun tick_counts :: "pasteboard event list \<Rightarrow> int list" where
  "tick_counts [] = []"
| "tick_counts (Tick pb # evs) = clipboard_change_count pb # tick_counts evs"
| "tick_counts (CtxDone # evs) = tick_counts evs"
| "tick_counts (Receive # evs) = tick_counts evs"

fun increases :: "int list \<Rightarrow> nat" where
  "increases (a # b # cs) = (if a < b then 1 else 0) + increases (b # cs)"
| "increases cs = 0"

fun changes :: "int list \<Rightarrow> nat" where
  "changes (a # b # cs) = (if a \<noteq> b then 1 else 0) + changes (b # cs)"
| "changes cs = 0"

definition sampled :: "watch_session \<Rightarrow> int" where
  "sampled s = (case w_pc s of AtSend (b, this) \<Rightarrow> this | _ \<Rightarrow> w_lastCount s)"

text \<open>
  \<open>read_ok\<close> holds of a result of \<open>Read\<close> that is a payload other than \<open>nil\<close>.
  \<open>Watch_reads_ok t s evs\<close> holds when every read that the run of \<open>evs\<close> from \<open>s\<close>
  makes has such a result: a read is made by a tick that finds the goroutine at the
  \<open>select\<close> with a sampled counter other than \<open>lastCount\<close>. Ticks that make no read
  are not constrained.
\<close>

fun read_ok :: "(char list option \<times> error option) outcome \<Rightarrow> bool" where
  "read_ok (Returns (Some bs, e)) = True"
| "read_ok (Returns (None, e)) = False"
| "read_ok Panics = False"

fun makes_read :: "watch_session \<Rightarrow> pasteboard event \<Rightarrow> bool" where
  "makes_read s (Tick pb) = (w_pc s = AtSelect \<and> w_lastCount s \<noteq> clipboard_change_count pb)"
| "makes_read s CtxDone = False"
| "makes_read s Receive = False"

fun read_of :: "Format \<Rightarrow> pasteboard event \<Rightarrow> (char list option \<times> error option) outcome" where
  "read_of t (Tick pb) = Read pb t"
| "read_of t CtxDone = Panics"
| "read_of t Receive = Panics"

fun Watch_reads_ok :: "Format \<Rightarrow> watch_session \<Rightarrow> pasteboard event list \<Rightarrow> bool" where
  "Watch_reads_ok t s [] = True"
| "Watch_reads_ok t s (ev # evs) =
     ((if makes_read s ev then read_ok (read_of t ev) else True) \<and>
      Watch_reads_ok t (Watch_step t s ev) evs)"

section \<open>Sessions that hold no empty value\<close>

text \<open>
  No value sent so far, none in the channel and none held by a parked send is \<open>nil\<close> or
  of length 0.
\<close>

definition Watch_nonempty :: "watch_session \<Rightarrow> bool" where
  "Watch_nonempty s =
     (list_all (\<lambda>v. v \<noteq> None \<and> v \<noteq> Some []) (w_sent s @ w_recv s) \<and>
      (case w_pc s of AtSend (b, this) \<Rightarrow> b \<noteq> None \<and> b \<noteq> Some [] | _ \<Rightarrow> True))"

definition Adapt_nonempty :: "adapt_session \<Rightarrow> bool" where
  "Adapt_nonempty s =
     (list_all (\<lambda>v. v \<noteq> []) (sent s @ recv s) \<and>
      (case pc s of AtSend (tx, this, m) \<Rightarrow> tx \<noteq> [] | _ \<Rightarrow> True))"

section \<open>What a parked send holds\<close>


section \<open>Idle events\<close>

text \<open>
  An event is idle for a counter value \<open>c\<close> when it is a tick that samples \<open>c\<close>
  again, or a receive of the consumer.
\<close>

fun idle :: "int \<Rightarrow> (pasteboard \<times> int) event \<Rightarrow> bool" where
  "idle c (Tick (pb, now)) = (clipboard_change_count pb = c)"
| "idle c CtxDone = False"
| "idle c Receive = True"

section \<open>Evaluating the sample pasteboards\<close>

lemma count_text_pb: "clipboard_change_count (text_pb c s) = c"
  by (simp add: text_pb_def)

lemma count_absent_pb: "clipboard_change_count (absent_pb c) = c"
  by (simp add: absent_pb_def)

lemma Read_absent_pb: "Read (absent_pb c) t = Returns (None, Some errUnavailable)"
  by (simp add: Read_def absent_pb_def native_read_def)

lemma Read_text_pb_42: "Read (text_pb c ''42'') FmtText = Returns (Some ''42'', None)"
  by (simp add: Read_def text_pb_def native_read_def GoBytes_def upt_rec)

lemma Read_text_pb_a: "Read (text_pb c ''a'') FmtText = Returns (Some ''a'', None)"
  by (simp add: Read_def text_pb_def native_read_def GoBytes_def upt_rec)

lemma Read_text_pb_b: "Read (text_pb c ''b'') FmtText = Returns (Some ''b'', None)"
  by (simp add: Read_def text_pb_def native_read_def GoBytes_def upt_rec)

section \<open>\<open>Read\<close>: absent and empty content\<close>

lemma Read_text_pb_image: "Read (text_pb c s) FmtImage = Returns (None, Some errUnavailable)"
  by (simp add: Read_def text_pb_def native_read_def FmtText_def FmtImage_def)

text \<open>
  C8. For each format, \<open>Read\<close> looks at that format's own native read. When it stored no
  pointer (the format has no content; an unknown format never has any), \<open>Read\<close> returns
  the \<open>nil\<close> payload with \<open>errUnavailable\<close>. When it stored a pointer and returned
  length 0 (content present and empty), \<open>Read\<close> returns the \<open>nil\<close> payload, whose length
  is 0, with a \<open>nil\<close> error. The two results differ, in the error.
\<close>

theorem Read_absent_and_empty:
  "(fst (clipboard_read_string pb) = NULL \<longrightarrow>
      Read pb FmtText = Returns (None, Some errUnavailable)) \<and>
   (fst (clipboard_read_image pb) = NULL \<longrightarrow>
      Read pb FmtImage = Returns (None, Some errUnavailable)) \<and>
   (t \<noteq> FmtText \<and> t \<noteq> FmtImage \<longrightarrow> Read pb t = Returns (None, Some errUnavailable)) \<and>
   (clipboard_read_string pb = (Addr mem, 0) \<longrightarrow> Read pb FmtText = Returns (None, None)) \<and>
   (clipboard_read_image pb = (Addr mem, 0) \<longrightarrow> Read pb FmtImage = Returns (None, None)) \<and>
   len None = 0 \<and>
   Returns (None, Some errUnavailable) \<noteq> Returns (None :: char list option, None :: error option)"
proof -
  have 1: "fst (clipboard_read_string pb) = NULL \<longrightarrow>
      Read pb FmtText = Returns (None, Some errUnavailable)"
    by (cases "clipboard_read_string pb") (simp add: Read_def native_read_def)
  have 2: "fst (clipboard_read_image pb) = NULL \<longrightarrow>
      Read pb FmtImage = Returns (None, Some errUnavailable)"
    by (cases "clipboard_read_image pb")
      (simp add: Read_def native_read_def FmtText_def FmtImage_def)
  have 3: "t \<noteq> FmtText \<and> t \<noteq> FmtImage \<longrightarrow> Read pb t = Returns (None, Some errUnavailable)"
    by (simp add: Read_def native_read_def)
  have 4: "clipboard_read_string pb = (Addr mem, 0) \<longrightarrow> Read pb FmtText = Returns (None, None)"
    by (simp add: Read_def native_read_def)
  have 5: "clipboard_read_image pb = (Addr mem, 0) \<longrightarrow> Read pb FmtImage = Returns (None, None)"
    by (simp add: Read_def native_read_def FmtText_def FmtImage_def)
  show ?thesis
    using 1 2 3 4 5 by simp
qed

theorem Read_absent_and_empty_witness:
  "fst (clipboard_read_string (absent_pb 1)) = NULL \<and>
   fst (clipboard_read_image (text_pb 1 ''42'')) = NULL \<and>
   (2 :: int) \<noteq> FmtText \<and> 2 \<noteq> FmtImage \<and>
   clipboard_read_string (text_pb 1 []) = (Addr (\<lambda>i. CHR ''?''), 0) \<and>
   clipboard_read_image (empty_image_pb 1 ''42'') = (Addr (\<lambda>i. CHR ''?''), 0) \<and>
   Read (absent_pb 1) FmtText = Returns (None, Some errUnavailable) \<and>
   Read (text_pb 1 ''42'') FmtImage = Returns (None, Some errUnavailable) \<and>
   Read (text_pb 1 ''42'') 2 = Returns (None, Some errUnavailable) \<and>
   Read (text_pb 1 []) FmtText = Returns (None, None) \<and>
   Read (empty_image_pb 1 ''42'') FmtImage = Returns (None, None)"
proof -
  have a: "fst (clipboard_read_string (absent_pb 1)) = NULL"
    by (simp add: absent_pb_def)
  have b: "fst (clipboard_read_image (text_pb 1 ''42'')) = NULL"
    by (simp add: text_pb_def)
  have c: "(2 :: int) \<noteq> FmtText \<and> 2 \<noteq> FmtImage"
    by (simp add: FmtText_def FmtImage_def)
  have d: "clipboard_read_string (text_pb 1 []) = (Addr (\<lambda>i. CHR ''?''), 0)"
    by (simp add: text_pb_def)
  have e: "clipboard_read_image (empty_image_pb 1 ''42'') = (Addr (\<lambda>i. CHR ''?''), 0)"
    by (simp add: empty_image_pb_def)
  show ?thesis
    using a b c d e
      Read_absent_and_empty [of "absent_pb 1" 2 "\<lambda>i. CHR ''?''"]
      Read_absent_and_empty [of "text_pb 1 ''42''" 2 "\<lambda>i. CHR ''?''"]
      Read_absent_and_empty [of "text_pb 1 []" 2 "\<lambda>i. CHR ''?''"]
      Read_absent_and_empty [of "empty_image_pb 1 ''42''" 2 "\<lambda>i. CHR ''?''"]
    by blast
qed

section \<open>The consumer's numeric ranges\<close>

lemma quo_pos: "0 < a \<Longrightarrow> 0 < b \<Longrightarrow> quo a b = a div b"
  by (simp add: quo_def)

text \<open>
  C10. For a text that parses as a positive integer \<open>n\<close>, \<open>handle\<close> notifies the time
  \<open>n\<close> (seconds) when \<open>10000000 < n < 10013221020\<close>, the time \<open>n / 1000\<close>
  (milliseconds) when \<open>10013221020 < n < 2101322102000\<close>, and does nothing otherwise:
  at the boundary \<open>10013221020\<close>, outside both intervals, and for a text longer than 40
  bytes.
\<close>

theorem handle_positive_number:
  assumes "ParseInt s = n" and "0 < n"
  shows "handle ParseInt ParseLocal s =
     (if length s \<le> 40 \<and> 10000000 < n \<and> n < 10013221020 then [NotifyTime n]
      else if length s \<le> 40 \<and> 10013221020 < n \<and> n < 2101322102000
        then [NotifyTime (n div 1000)]
      else [])"
  using assms by (simp add: handle_def handleNum_def handleS_def quo_pos Let_def)

theorem handle_positive_number_witness:
  "(\<lambda>_. 1701322102000) ''1701322102000'' = (1701322102000 :: int) \<and>
   (0 :: int) < 1701322102000 \<and>
   handle (\<lambda>_. 1701322102000) (\<lambda>_. None) ''1701322102000'' = [NotifyTime 1701322102]"
  using handle_positive_number
    [of "\<lambda>_. 1701322102000" "''1701322102000''" 1701322102000 "\<lambda>_. None"]
  by simp

section \<open>A change that cannot be read\<close>

text \<open>
  C1, as stated: on a tick where the sampled counter differs from the last-observed one and
  the read returns the \<open>nil\<close> payload, the last-observed counter becomes the sampled
  value. It fails for \<open>Watch\<close> and for \<open>AdaptWatchDoubleText\<close>: the \<open>continue\<close>
  leaves \<open>lastCount\<close> as it was.
\<close>

theorem unreadable_change_advances_counterexample:
  "w_lastCount (Watch_step FmtText (Watch (absent_pb 0)) (Tick (absent_pb 1)))
     \<noteq> clipboard_change_count (absent_pb 1) \<and>
   lastCount (Adapt_step (AdaptWatchDoubleText (absent_pb 0) 0) (Tick (absent_pb 1, 100)))
     \<noteq> clipboard_change_count (absent_pb 1)"
  by (simp add: Watch_step_def Watch_def Watch_tick_def Adapt_step_def
      AdaptWatchDoubleText_def Adapt_tick_def Read_absent_pb count_absent_pb)

text \<open>
  C1, amended: on such a tick the session is unchanged but for the read that was made, so
  the last-observed counter keeps its old value, and a next tick that samples the same
  counter reads again.
\<close>

theorem unreadable_change_keeps_baseline:
  assumes "w_pc s = AtSelect"
    and "w_lastCount s \<noteq> clipboard_change_count pb"
    and "Read pb t = Returns (None, e)"
    and "pc a = AtSelect"
    and "lastCount a \<noteq> clipboard_change_count pb'"
    and "Read pb' FmtText = Returns (None, e')"
  shows "Watch_step t s (Tick pb) = s\<lparr>w_reads := w_reads s + 1\<rparr> \<and>
         Watch_run t s [Tick pb, Tick pb] = s\<lparr>w_reads := w_reads s + 2\<rparr> \<and>
         Adapt_step a (Tick (pb', now)) = a\<lparr>reads := reads a + 1\<rparr> \<and>
         Adapt_run a [Tick (pb', now), Tick (pb', now')] = a\<lparr>reads := reads a + 2\<rparr>"
  using assms
  by (simp add: Watch_step_def Watch_tick_def Adapt_step_def Adapt_tick_def)

theorem unreadable_change_keeps_baseline_witness:
  "w_pc (Watch (absent_pb 0)) = AtSelect \<and>
   w_lastCount (Watch (absent_pb 0)) \<noteq> clipboard_change_count (absent_pb 1) \<and>
   Read (absent_pb 1) FmtImage = Returns (None, Some errUnavailable) \<and>
   pc (AdaptWatchDoubleText (absent_pb 0) 0) = AtSelect \<and>
   lastCount (AdaptWatchDoubleText (absent_pb 0) 0) \<noteq> clipboard_change_count (absent_pb 1) \<and>
   Read (absent_pb 1) FmtText = Returns (None, Some errUnavailable) \<and>
   Watch_step FmtImage (Watch (absent_pb 0)) (Tick (absent_pb 1)) =
     (Watch (absent_pb 0))\<lparr>w_reads := w_reads (Watch (absent_pb 0)) + 1\<rparr> \<and>
   Watch_run FmtImage (Watch (absent_pb 0)) [Tick (absent_pb 1), Tick (absent_pb 1)] =
     (Watch (absent_pb 0))\<lparr>w_reads := w_reads (Watch (absent_pb 0)) + 2\<rparr> \<and>
   Adapt_step (AdaptWatchDoubleText (absent_pb 0) 0) (Tick (absent_pb 1, 100)) =
     (AdaptWatchDoubleText (absent_pb 0) 0)
       \<lparr>reads := reads (AdaptWatchDoubleText (absent_pb 0) 0) + 1\<rparr> \<and>
   Adapt_run (AdaptWatchDoubleText (absent_pb 0) 0)
       [Tick (absent_pb 1, 100), Tick (absent_pb 1, 300)] =
     (AdaptWatchDoubleText (absent_pb 0) 0)
       \<lparr>reads := reads (AdaptWatchDoubleText (absent_pb 0) 0) + 2\<rparr>"
proof -
  have 1: "w_pc (Watch (absent_pb 0)) = AtSelect"
    by (simp add: Watch_def)
  have 2: "w_lastCount (Watch (absent_pb 0)) \<noteq> clipboard_change_count (absent_pb 1)"
    by (simp add: Watch_def count_absent_pb)
  have 3: "Read (absent_pb 1) FmtImage = Returns (None, Some errUnavailable)"
    by (rule Read_absent_pb)
  have 4: "pc (AdaptWatchDoubleText (absent_pb 0) 0) = AtSelect"
    by (simp add: AdaptWatchDoubleText_def)
  have 5: "lastCount (AdaptWatchDoubleText (absent_pb 0) 0) \<noteq> clipboard_change_count (absent_pb 1)"
    by (simp add: AdaptWatchDoubleText_def count_absent_pb)
  have 6: "Read (absent_pb 1) FmtText = Returns (None, Some errUnavailable)"
    by (rule Read_absent_pb)
  note c = unreadable_change_keeps_baseline [OF 1 2 3 4 5 6, of 100 300]
  show ?thesis using 1 2 3 4 5 6 c by blast
qed

section \<open>The miss streak after an accepted change\<close>

lemma Adapt_accept_fields:
  "missCount (Adapt_accept s this currMill) = 1 \<and> ti (Adapt_accept s this currMill) = 100
   \<and> lastCount (Adapt_accept s this currMill) = this
   \<and> lastMill (Adapt_accept s this currMill) = currMill
   \<and> lastText (Adapt_accept s this currMill) = lastText s
   \<and> recv (Adapt_accept s this currMill) = recv s
   \<and> sent (Adapt_accept s this currMill) = sent s
   \<and> pc (Adapt_accept s this currMill) = pc s
   \<and> reads (Adapt_accept s this currMill) = reads s
   \<and> closed (Adapt_accept s this currMill) = closed s"
  by (simp add: Adapt_accept_def Adapt_miss_def)

text \<open>
  C6: at the end of a tick that detected a change and read non-empty text, the miss streak
  is 0 and the poll interval is 100ms. On a new session whose first tick reads \<open>42\<close>,
  the code ends the tick with the interval at 100ms and the miss streak at 1: after
  \<open>missCount = 0\<close> the test \<open>lastCount == this\<close> holds, since \<open>lastCount\<close> has just
  been assigned \<open>this\<close>, and the streak is incremented.
\<close>

theorem accepted_change_missCount:
  "missCount (Adapt_step (AdaptWatchDoubleText (absent_pb 0) 0) (Tick (text_pb 1 ''42'', 0))) = 1 \<and>
   ti (Adapt_step (AdaptWatchDoubleText (absent_pb 0) 0) (Tick (text_pb 1 ''42'', 0))) = 100"
  by (simp add: Adapt_step_def Adapt_tick_def AdaptWatchDoubleText_def Read_text_pb_42
      count_absent_pb count_text_pb Adapt_accept_fields)

section \<open>Sending on a full channel\<close>

lemma Adapt_step_candidate:
  assumes "pc s = AtSelect"
    and "lastCount s \<noteq> clipboard_change_count pb"
    and "Read pb FmtText = Returns (Some text, e)"
    and "text \<noteq> []"
    and "\<not> (text = lastText s \<and> now - lastMill s < 500)"
  shows "Adapt_step s (Tick (pb, now)) =
           s\<lparr>reads := reads s + 1, lastText := text, lastMill := now,
             lastCount := clipboard_change_count pb, ti := 100, missCount := 1\<rparr>"
  using assms
  by (auto simp add: Adapt_step_def Adapt_tick_def Adapt_accept_def Adapt_miss_def)

lemma Adapt_step_confirm:
  assumes "pc s = AtSelect"
    and "lastCount s \<noteq> clipboard_change_count pb"
    and "Read pb FmtText = Returns (Some text, e)"
    and "text \<noteq> []"
    and "text = lastText s"
    and "now - lastMill s < 500"
    and "recv s = []"
  shows "Adapt_step s (Tick (pb, now)) =
           s\<lparr>reads := reads s + 1, recv := [text], sent := sent s @ [text], lastText := [],
             lastMill := now, lastCount := clipboard_change_count pb, ti := 100,
             missCount := 1\<rparr>"
  using assms
  by (simp add: Adapt_step_def Adapt_tick_def Adapt_sent_def Adapt_accept_def Adapt_miss_def)

lemma full_watch_eq:
  "full_watch =
     \<lparr>w_lastCount = 1, w_recv = [Some ''a''], w_closed = False, w_pc = AtSelect,
      w_reads = 1, w_sent = [Some ''a'']\<rparr>"
  by (simp add: full_watch_def Watch_step_def Watch_tick_def Watch_def Watch_sent_def
      Read_text_pb_a count_absent_pb count_text_pb)

lemma full_adapt_eq:
  "full_adapt =
     \<lparr>lastCount = 3, missCount = 1, lastText = ''a'', lastMill = 200, ti = 100,
      recv = [''a''], closed = False, pc = AtSelect, reads = 3, sent = [''a'']\<rparr>"
  by (simp add: full_adapt_def Adapt_step_def Adapt_tick_def AdaptWatchDoubleText_def
      Adapt_sent_def Adapt_accept_def Adapt_miss_def
      Read_text_pb_a count_absent_pb count_text_pb)

text \<open>
  C3, as stated: when the one-slot channel is full, the emission is dropped and the poll
  loop goes on without blocking. It fails: \<open>recv <- b\<close> is a plain send. With \<open>a\<close>
  unconsumed in the channel, the tick that reads \<open>b\<close> leaves the goroutine parked in the
  send, and once the consumer has received, \<open>b\<close> is in the channel.
\<close>

theorem send_on_full_channel_dropped_counterexample:
  "w_pc (Watch_run FmtText (Watch (absent_pb 0)) [Tick (text_pb 1 ''a''), Tick (text_pb 2 ''b'')])
     = AtSend (Some ''b'', 2) \<and>
   w_recv (Watch_run FmtText (Watch (absent_pb 0))
     [Tick (text_pb 1 ''a''), Tick (text_pb 2 ''b''), Receive]) = [Some ''b'']"
  by (simp add: Watch_step_def Watch_tick_def Watch_def Watch_sent_def
      Read_text_pb_a Read_text_pb_b count_absent_pb count_text_pb)

text \<open>
  C3, amended: the emission is a blocking send. When the channel is full, the tick parks the
  goroutine in the send, keeping the payload; while it is parked, ticks and cancellation
  change nothing; when the consumer receives the oldest value, the parked payload enters
  the channel and the statements after the send run. This holds for \<open>Watch\<close> and for a
  confirmed text of \<open>AdaptWatchDoubleText\<close>.
\<close>

theorem send_on_full_channel_blocks:
  assumes "w_pc s = AtSelect"
    and "w_lastCount s \<noteq> clipboard_change_count pb"
    and "Read pb t = Returns (Some bs, e)"
    and "w_recv s = [v]"
    and "pc a = AtSelect"
    and "lastCount a \<noteq> clipboard_change_count pb'"
    and "Read pb' FmtText = Returns (Some text, e')"
    and "text \<noteq> []"
    and "text = lastText a"
    and "now - lastMill a < 500"
    and "recv a = [v']"
  shows "Watch_step t s (Tick pb) =
           s\<lparr>w_reads := w_reads s + 1, w_pc := AtSend (Some bs, clipboard_change_count pb)\<rparr> \<and>
         Watch_run t s [Tick pb, Tick pb2] = Watch_step t s (Tick pb) \<and>
         Watch_run t s [Tick pb, CtxDone] = Watch_step t s (Tick pb) \<and>
         Watch_run t s [Tick pb, Receive] =
           s\<lparr>w_reads := w_reads s + 1, w_recv := [Some bs], w_sent := w_sent s @ [Some bs],
             w_lastCount := clipboard_change_count pb\<rparr> \<and>
         Adapt_step a (Tick (pb', now)) =
           a\<lparr>reads := reads a + 1, pc := AtSend (text, clipboard_change_count pb', now)\<rparr> \<and>
         Adapt_run a [Tick (pb', now), Tick (pb2', now2)] = Adapt_step a (Tick (pb', now)) \<and>
         Adapt_run a [Tick (pb', now), CtxDone] = Adapt_step a (Tick (pb', now)) \<and>
         Adapt_run a [Tick (pb', now), Receive] =
           a\<lparr>reads := reads a + 1, recv := [text], sent := sent a @ [text], lastText := [],
             lastMill := now, lastCount := clipboard_change_count pb', ti := 100,
             missCount := 1\<rparr>"
proof -
  have w: "Watch_step t s (Tick pb) =
      s\<lparr>w_reads := w_reads s + 1, w_pc := AtSend (Some bs, clipboard_change_count pb)\<rparr>"
    using assms(1-4) by (simp add: Watch_step_def Watch_tick_def)
  have a: "Adapt_step a (Tick (pb', now)) =
      a\<lparr>reads := reads a + 1, pc := AtSend (text, clipboard_change_count pb', now)\<rparr>"
    using assms(5-11) by (simp add: Adapt_step_def Adapt_tick_def)
  have w2: "Watch_run t s [Tick pb, Tick pb2] = Watch_step t s (Tick pb)"
    "Watch_run t s [Tick pb, CtxDone] = Watch_step t s (Tick pb)"
    by (simp_all add: w) (simp_all add: Watch_step_def)
  have w3: "Watch_run t s [Tick pb, Receive] =
           s\<lparr>w_reads := w_reads s + 1, w_recv := [Some bs], w_sent := w_sent s @ [Some bs],
             w_lastCount := clipboard_change_count pb\<rparr>"
    using assms(1,4) by (simp add: w) (simp add: Watch_step_def Watch_sent_def)
  have a2: "Adapt_run a [Tick (pb', now), Tick (pb2', now2)] = Adapt_step a (Tick (pb', now))"
    "Adapt_run a [Tick (pb', now), CtxDone] = Adapt_step a (Tick (pb', now))"
    by (simp_all add: a) (simp_all add: Adapt_step_def)
  have a3: "Adapt_run a [Tick (pb', now), Receive] =
           a\<lparr>reads := reads a + 1, recv := [text], sent := sent a @ [text], lastText := [],
             lastMill := now, lastCount := clipboard_change_count pb', ti := 100,
             missCount := 1\<rparr>"
    using assms(5,11) by (simp add: a)
      (simp add: Adapt_step_def Adapt_sent_def Adapt_accept_def Adapt_miss_def)
  show ?thesis
    using w w2 w3 a a2 a3 by blast
qed

theorem send_on_full_channel_blocks_witness:
  "w_pc full_watch = AtSelect \<and>
   w_lastCount full_watch \<noteq> clipboard_change_count (text_pb 2 ''b'') \<and>
   Read (text_pb 2 ''b'') FmtText = Returns (Some ''b'', None) \<and>
   w_recv full_watch = [Some ''a''] \<and>
   pc full_adapt = AtSelect \<and>
   lastCount full_adapt \<noteq> clipboard_change_count (text_pb 4 ''a'') \<and>
   Read (text_pb 4 ''a'') FmtText = Returns (Some ''a'', None) \<and>
   ''a'' \<noteq> [] \<and>
   ''a'' = lastText full_adapt \<and>
   300 - lastMill full_adapt < 500 \<and>
   recv full_adapt = [''a''] \<and>
   w_pc (Watch_step FmtText full_watch (Tick (text_pb 2 ''b''))) = AtSend (Some ''b'', 2) \<and>
   w_recv (Watch_run FmtText full_watch [Tick (text_pb 2 ''b''), Receive]) = [Some ''b''] \<and>
   pc (Adapt_step full_adapt (Tick (text_pb 4 ''a'', 300))) = AtSend (''a'', 4, 300) \<and>
   recv (Adapt_run full_adapt [Tick (text_pb 4 ''a'', 300), Receive]) = [''a'']"
proof -
  have 1: "w_pc full_watch = AtSelect"
    and 2: "w_lastCount full_watch \<noteq> clipboard_change_count (text_pb 2 ''b'')"
    and 4: "w_recv full_watch = [Some ''a'']"
    by (simp_all add: full_watch_eq count_text_pb)
  have 3: "Read (text_pb 2 ''b'') FmtText = Returns (Some ''b'', None)"
    by (rule Read_text_pb_b)
  have 5: "pc full_adapt = AtSelect"
    and 6: "lastCount full_adapt \<noteq> clipboard_change_count (text_pb 4 ''a'')"
    and 9: "''a'' = lastText full_adapt"
    and 10: "300 - lastMill full_adapt < 500"
    and 11: "recv full_adapt = [''a'']"
    by (simp_all add: full_adapt_eq count_text_pb)
  have 7: "Read (text_pb 4 ''a'') FmtText = Returns (Some ''a'', None)"
    by (rule Read_text_pb_a)
  have 8: "''a'' \<noteq> []"
    by simp
  note c = send_on_full_channel_blocks [OF 1 2 3 4 5 6 7 8 9 10 11]
  have w: "w_pc (Watch_step FmtText full_watch (Tick (text_pb 2 ''b''))) = AtSend (Some ''b'', 2)"
    by (simp add: c count_text_pb)
  have w': "w_recv (Watch_run FmtText full_watch [Tick (text_pb 2 ''b''), Receive]) = [Some ''b'']"
    by (simp only: c) simp
  have a: "pc (Adapt_step full_adapt (Tick (text_pb 4 ''a'', 300))) = AtSend (''a'', 4, 300)"
    by (simp add: c count_text_pb)
  have a': "recv (Adapt_run full_adapt [Tick (text_pb 4 ''a'', 300), Receive]) = [''a'']"
    by (simp only: c) simp
  show ?thesis
    using 1 2 3 4 5 6 7 8 9 10 11 w w' a a' by blast
qed

section \<open>Reads per counter change\<close>

lemma changes_skip: "changes (a # cs) \<le> changes (a # c # cs)"
  by (cases cs) auto

lemma changes_sorted: "sorted cs \<Longrightarrow> changes cs = increases cs"
  by (induction cs rule: changes.induct) auto

lemma Watch_tick_changed:
  assumes "w_lastCount s \<noteq> clipboard_change_count pb"
    and "Read pb t = Returns (Some bs, e)"
  shows "Watch_tick t s pb =
     (if w_recv s = []
      then s\<lparr>w_reads := w_reads s + 1, w_recv := [Some bs], w_sent := w_sent s @ [Some bs],
             w_lastCount := clipboard_change_count pb, w_pc := AtSelect\<rparr>
      else s\<lparr>w_reads := w_reads s + 1, w_pc := AtSend (Some bs, clipboard_change_count pb)\<rparr>)"
  using assms by (simp add: Watch_tick_def Watch_sent_def Let_def)

lemma Watch_tick_unchanged:
  "w_lastCount s = clipboard_change_count pb \<Longrightarrow> Watch_tick t s pb = s"
  by (simp add: Watch_tick_def)

lemma read_ok_Some: "read_ok r \<Longrightarrow> \<exists>bs e. r = Returns (Some bs, e)"
  by (cases r rule: read_ok.cases) simp_all

lemma Watch_step_reads:
  assumes "makes_read s ev \<Longrightarrow> read_ok (read_of t ev)"
  shows "w_reads (Watch_step t s ev) + changes (sampled (Watch_step t s ev) # cs)
           \<le> w_reads s + changes (sampled s # tick_counts [ev] @ cs)"
proof (cases ev)
  case (Tick pb)
  show ?thesis
  proof (cases "w_pc s")
    case AtSelect
    show ?thesis
    proof (cases "w_lastCount s = clipboard_change_count pb")
      case True
      then show ?thesis
        using Tick AtSelect
        by (simp add: Watch_step_def Watch_tick_unchanged sampled_def)
    next
      case False
      with assms Tick AtSelect have "read_ok (Read pb t)"
        by simp
      then obtain bs e where r: "Read pb t = Returns (Some bs, e)"
        using read_ok_Some by blast
      show ?thesis
        using Tick AtSelect False
        by (simp add: Watch_step_def Watch_tick_changed [OF False r] sampled_def)
    qed
  next
    case (AtSend k)
    then show ?thesis
      using Tick changes_skip [of "sampled s" cs "clipboard_change_count pb"]
      by (cases k) (simp add: Watch_step_def)
  next
    case Exited
    then show ?thesis
      using Tick changes_skip [of "sampled s" cs "clipboard_change_count pb"]
      by (simp add: Watch_step_def)
  next
    case Panicked
    then show ?thesis
      using Tick changes_skip [of "sampled s" cs "clipboard_change_count pb"]
      by (simp add: Watch_step_def)
  qed
next
  case CtxDone
  then show ?thesis
    by (cases "w_pc s") (auto simp: Watch_step_def sampled_def split: prod.splits)
next
  case Receive
  then show ?thesis
    by (cases "w_pc s") (auto simp: Watch_step_def Watch_sent_def sampled_def split: prod.splits)
qed

lemma Watch_run_reads:
  assumes "Watch_reads_ok t s evs"
  shows "w_reads (Watch_run t s evs) \<le> w_reads s + changes (sampled s # tick_counts evs)"
  using assms
proof (induction evs arbitrary: s)
  case Nil
  show ?case by simp
next
  case (Cons ev evs)
  from Cons.prems have ok: "makes_read s ev \<Longrightarrow> read_ok (read_of t ev)"
    and rest: "Watch_reads_ok t (Watch_step t s ev) evs"
    by simp_all
  have "w_reads (Watch_run t (Watch_step t s ev) evs)
      \<le> w_reads (Watch_step t s ev) + changes (sampled (Watch_step t s ev) # tick_counts evs)"
    using Cons.IH [OF rest] .
  also have "\<dots> \<le> w_reads s + changes (sampled s # tick_counts [ev] @ tick_counts evs)"
    using Watch_step_reads [of s ev t "tick_counts evs"] ok by simp
  also have "tick_counts [ev] @ tick_counts evs = tick_counts (ev # evs)"
    by (cases ev) simp_all
  finally show ?case by simp
qed

text \<open>
  C2, as stated: over any sequence of counter values, \<open>Watch\<close> reads at most once per
  strict increase of the counter. It fails: with the counter going from 0 to 1 and staying
  there, and nothing to read, each of three ticks reads, for one increase.
\<close>

theorem Watch_reads_per_increase_counterexample:
  "\<not> w_reads (Watch_run FmtText (Watch (absent_pb 0))
         [Tick (absent_pb 1), Tick (absent_pb 1), Tick (absent_pb 1)])
     \<le> increases (clipboard_change_count (absent_pb 0) #
         tick_counts [Tick (absent_pb 1), Tick (absent_pb 1), Tick (absent_pb 1)])"
  by (simp add: Watch_step_def Watch_tick_def Watch_def Read_absent_pb count_absent_pb)

text \<open>
  C2, amended: a tick whose sampled counter equals the last-observed counter makes no read.
  When every read that the run makes returns a payload other than \<open>nil\<close>, the reads of a
  new session are at most the changes of the counter along the run, which are its strict
  increases when the counter never decreases.
\<close>

theorem Watch_reads_bound:
  assumes "Watch_reads_ok t (Watch pb0) evs"
  shows "(w_lastCount s = clipboard_change_count pb \<longrightarrow>
            w_reads (Watch_step t s (Tick pb)) = w_reads s) \<and>
         w_reads (Watch_run t (Watch pb0) evs)
           \<le> changes (clipboard_change_count pb0 # tick_counts evs) \<and>
         (sorted (clipboard_change_count pb0 # tick_counts evs) \<longrightarrow>
            w_reads (Watch_run t (Watch pb0) evs)
              \<le> increases (clipboard_change_count pb0 # tick_counts evs))"
proof -
  have z: "w_lastCount s = clipboard_change_count pb \<longrightarrow>
            w_reads (Watch_step t s (Tick pb)) = w_reads s"
    by (cases "w_pc s") (auto simp: Watch_step_def Watch_tick_def split: prod.splits)
  have "w_reads (Watch_run t (Watch pb0) evs)
      \<le> w_reads (Watch pb0) + changes (sampled (Watch pb0) # tick_counts evs)"
    using assms by (rule Watch_run_reads)
  then have b: "w_reads (Watch_run t (Watch pb0) evs)
      \<le> changes (clipboard_change_count pb0 # tick_counts evs)"
    by (simp add: Watch_def sampled_def)
  have c: "sorted (clipboard_change_count pb0 # tick_counts evs) \<longrightarrow>
            w_reads (Watch_run t (Watch pb0) evs)
              \<le> increases (clipboard_change_count pb0 # tick_counts evs)"
  proof
    assume "sorted (clipboard_change_count pb0 # tick_counts evs)"
    then have "changes (clipboard_change_count pb0 # tick_counts evs)
        = increases (clipboard_change_count pb0 # tick_counts evs)"
      by (rule changes_sorted)
    with b show "w_reads (Watch_run t (Watch pb0) evs)
              \<le> increases (clipboard_change_count pb0 # tick_counts evs)"
      by simp
  qed
  show ?thesis
    using z b c by blast
qed

text \<open>
  The witness run has ticks that make no read and whose pasteboard could not be read: the
  first finds the counter unchanged, the fourth finds the goroutine parked in the send.
\<close>

theorem Watch_reads_bound_witness:
  "Watch_reads_ok FmtText (Watch (absent_pb 0))
     [Tick (absent_pb 0), Tick (text_pb 1 ''a''), Tick (text_pb 2 ''b''), Tick (absent_pb 2),
      Receive, Tick (text_pb 2 ''b'')] \<and>
   w_lastCount full_watch = clipboard_change_count (text_pb 1 ''a'') \<and>
   sorted (clipboard_change_count (absent_pb 0) #
     tick_counts [Tick (absent_pb 0), Tick (text_pb 1 ''a''), Tick (text_pb 2 ''b''),
       Tick (absent_pb 2), Receive, Tick (text_pb 2 ''b'')]) \<and>
   w_reads (Watch_step FmtText full_watch (Tick (text_pb 1 ''a''))) = w_reads full_watch \<and>
   w_reads (Watch_run FmtText (Watch (absent_pb 0))
       [Tick (absent_pb 0), Tick (text_pb 1 ''a''), Tick (text_pb 2 ''b''), Tick (absent_pb 2),
        Receive, Tick (text_pb 2 ''b'')])
     \<le> changes (clipboard_change_count (absent_pb 0) #
         tick_counts [Tick (absent_pb 0), Tick (text_pb 1 ''a''), Tick (text_pb 2 ''b''),
           Tick (absent_pb 2), Receive, Tick (text_pb 2 ''b'')]) \<and>
   w_reads (Watch_run FmtText (Watch (absent_pb 0))
       [Tick (absent_pb 0), Tick (text_pb 1 ''a''), Tick (text_pb 2 ''b''), Tick (absent_pb 2),
        Receive, Tick (text_pb 2 ''b'')])
     \<le> increases (clipboard_change_count (absent_pb 0) #
         tick_counts [Tick (absent_pb 0), Tick (text_pb 1 ''a''), Tick (text_pb 2 ''b''),
           Tick (absent_pb 2), Receive, Tick (text_pb 2 ''b'')])"
proof -
  have h: "Watch_reads_ok FmtText (Watch (absent_pb 0))
     [Tick (absent_pb 0), Tick (text_pb 1 ''a''), Tick (text_pb 2 ''b''), Tick (absent_pb 2),
      Receive, Tick (text_pb 2 ''b'')]"
    by (simp add: Watch_step_def Watch_tick_def Watch_def Watch_sent_def
        Read_text_pb_a Read_text_pb_b count_absent_pb count_text_pb)
  have l: "w_lastCount full_watch = clipboard_change_count (text_pb 1 ''a'')"
    by (simp add: full_watch_eq count_text_pb)
  have o: "sorted (clipboard_change_count (absent_pb 0) #
     tick_counts [Tick (absent_pb 0), Tick (text_pb 1 ''a''), Tick (text_pb 2 ''b''),
       Tick (absent_pb 2), Receive, Tick (text_pb 2 ''b'')])"
    by (simp add: count_absent_pb count_text_pb)
  note c = Watch_reads_bound [OF h, of full_watch "text_pb 1 ''a''"]
  show ?thesis
    using h l o c by blast
qed

section \<open>Emitted values are not empty\<close>

lemma list_all_tl: "list_all P xs \<Longrightarrow> list_all P (tl xs)"
  by (cases xs) auto

lemma Read_Some_nonempty:
  assumes "Read pb t = Returns (Some bs, e)"
  shows "bs \<noteq> []"
proof -
  obtain p n where pn: "native_read pb t = (p, n)"
    by (cases "native_read pb t")
  show ?thesis
  proof (cases p)
    case NULL
    then show ?thesis using assms pn by (simp add: Read_def)
  next
    case (Addr mem)
    with assms pn have n: "n \<noteq> 0" and g: "GoBytes mem (sint n) = Returns bs"
      by (auto simp add: Read_def split: if_splits outcome.splits)
    from g have "0 \<le> sint n" and bs: "bs = map mem [0..<nat (sint n)]"
      by (auto simp add: GoBytes_def split: if_splits)
    moreover from n have "sint n \<noteq> 0"
      by (simp add: signed_eq_0_iff)
    ultimately have "0 < nat (sint n)"
      by simp
    with bs show ?thesis by simp
  qed
qed

lemma Watch_step_nonempty:
  assumes "Watch_nonempty s"
  shows "Watch_nonempty (Watch_step t s ev)"
proof (cases "w_pc s")
  case AtSelect
  show ?thesis
  proof (cases ev)
    case (Tick pb)
    show ?thesis
    proof (cases "Read pb t")
      case Panics
      then show ?thesis
        using assms AtSelect Tick
        by (auto simp add: Watch_step_def Watch_tick_def Watch_nonempty_def Let_def)
    next
      case (Returns r)
      obtain b e where r: "r = (b, e)" by (cases r)
      show ?thesis
      proof (cases b)
        case None
        then show ?thesis
          using assms AtSelect Tick Returns r
          by (auto simp add: Watch_step_def Watch_tick_def Watch_nonempty_def Let_def)
      next
        case (Some bs)
        with Returns r have "bs \<noteq> []"
          using Read_Some_nonempty [of pb t bs e] by simp
        then show ?thesis
          using assms AtSelect Tick Returns r Some
          by (auto simp add: Watch_step_def Watch_tick_def Watch_sent_def Watch_nonempty_def Let_def)
      qed
    qed
  next
    case CtxDone
    then show ?thesis
      using assms AtSelect by (auto simp add: Watch_step_def Watch_nonempty_def)
  next
    case Receive
    then show ?thesis
      using assms AtSelect
      by (auto simp add: Watch_step_def Watch_nonempty_def intro: list_all_tl)
  qed
next
  case (AtSend k)
  obtain b this where k: "k = (b, this)" by (cases k)
  show ?thesis
    using assms AtSend k
    by (cases ev) (auto simp add: Watch_step_def Watch_sent_def Watch_nonempty_def intro: list_all_tl)
next
  case Exited
  then show ?thesis
    using assms
    by (cases ev) (auto simp add: Watch_step_def Watch_nonempty_def intro: list_all_tl)
next
  case Panicked
  then show ?thesis
    using assms
    by (cases ev) (auto simp add: Watch_step_def Watch_nonempty_def intro: list_all_tl)
qed

lemma Watch_run_nonempty:
  "Watch_nonempty s \<Longrightarrow> Watch_nonempty (Watch_run t s evs)"
  by (induction evs arbitrary: s) (simp_all add: Watch_step_nonempty)


lemma Adapt_miss_fields:
  "lastCount (Adapt_miss s this) = lastCount s
   \<and> lastMill (Adapt_miss s this) = lastMill s
   \<and> lastText (Adapt_miss s this) = lastText s
   \<and> recv (Adapt_miss s this) = recv s
   \<and> sent (Adapt_miss s this) = sent s
   \<and> pc (Adapt_miss s this) = pc s
   \<and> reads (Adapt_miss s this) = reads s
   \<and> closed (Adapt_miss s this) = closed s"
  by (simp add: Adapt_miss_def Let_def)

lemma Adapt_sent_fields:
  "recv (Adapt_sent s text this m) = recv s @ [text]
   \<and> sent (Adapt_sent s text this m) = sent s @ [text]
   \<and> pc (Adapt_sent s text this m) = AtSelect
   \<and> lastText (Adapt_sent s text this m) = []"
  by (simp add: Adapt_sent_def Adapt_accept_fields)

lemma Adapt_tick_nonempty:
  assumes "Adapt_nonempty s" and "pc s = AtSelect"
  shows "Adapt_nonempty (Adapt_tick s pb now)"
proof (cases "lastCount s = clipboard_change_count pb")
  case True
  then show ?thesis
    using assms by (simp add: Adapt_tick_def Adapt_nonempty_def Adapt_miss_fields Let_def)
next
  case False
  show ?thesis
  proof (cases "Read pb FmtText")
    case Panics
    then show ?thesis
      using assms False by (simp add: Adapt_tick_def Adapt_nonempty_def Let_def)
  next
    case (Returns r)
    obtain b e where r: "r = (b, e)" by (cases r)
    show ?thesis
    proof (cases b)
      case None
      then show ?thesis
        using assms False Returns r by (simp add: Adapt_tick_def Adapt_nonempty_def Let_def)
    next
      case (Some tx)
      let ?s1 = "s\<lparr>reads := reads s + 1\<rparr>"
      have s1: "Adapt_nonempty ?s1" "pc ?s1 = AtSelect"
        using assms by (simp_all add: Adapt_nonempty_def)
      have t: "Adapt_tick s pb now =
        (if tx = [] then ?s1
         else if tx = lastText s \<and> now - lastMill s < 500 then
           (if length (recv s) < 1 then Adapt_sent ?s1 tx (clipboard_change_count pb) now
            else ?s1\<lparr>pc := AtSend (tx, clipboard_change_count pb, now)\<rparr>)
         else Adapt_accept (?s1\<lparr>lastText := tx\<rparr>) (clipboard_change_count pb) now)"
        using False Returns r Some by (simp add: Adapt_tick_def Let_def)
      show ?thesis
      proof (cases "tx = []")
        case True
        then show ?thesis using t s1 by simp
      next
        case ne: False
        show ?thesis
        proof (cases "tx = lastText s")
          case same: True
          show ?thesis
          proof (cases "now - lastMill s < 500")
            case near: True
            show ?thesis
            proof (cases "length (recv s) < 1")
              case True
              then show ?thesis
                using t ne same near s1 by (simp add: Adapt_nonempty_def Adapt_sent_fields)
            next
              case False
              then show ?thesis
                using t ne same near s1 by (simp add: Adapt_nonempty_def)
            qed
          next
            case False
            then show ?thesis
              using t ne s1 by (simp add: Adapt_nonempty_def Adapt_accept_fields)
          qed
        next
          case False
          then show ?thesis
            using t ne s1 by (simp add: Adapt_nonempty_def Adapt_accept_fields)
        qed
      qed
    qed
  qed
qed

lemma Adapt_step_nonempty:
  assumes "Adapt_nonempty s"
  shows "Adapt_nonempty (Adapt_step s ev)"
proof -
  have r: "Adapt_nonempty (s\<lparr>recv := tl (recv s)\<rparr>)"
    using assms by (auto simp add: Adapt_nonempty_def intro: list_all_tl)
  show ?thesis
  proof (cases "pc s")
    case AtSelect
    show ?thesis
    proof (cases ev)
      case (Tick i)
      obtain pb now where i: "i = (pb, now)" by (cases i)
      show ?thesis
        using Adapt_tick_nonempty [OF assms AtSelect] AtSelect Tick i
        by (simp add: Adapt_step_def)
    next
      case CtxDone
      then show ?thesis
        using assms AtSelect by (simp add: Adapt_step_def Adapt_nonempty_def)
    next
      case Receive
      then show ?thesis
        using r AtSelect by (simp add: Adapt_step_def)
    qed
  next
    case (AtSend k)
    obtain tx this m where k: "k = (tx, this, m)" by (cases k)
    have tx: "tx \<noteq> []"
      using assms AtSend k by (simp add: Adapt_nonempty_def)
    have "Adapt_nonempty (Adapt_sent (s\<lparr>recv := tl (recv s)\<rparr>) tx this m)"
      using r tx by (simp add: Adapt_nonempty_def Adapt_sent_fields)
    then show ?thesis
      using assms AtSend k by (cases ev) (simp_all add: Adapt_step_def)
  next
    case Exited
    then show ?thesis
      using assms r by (cases ev) (simp_all add: Adapt_step_def)
  next
    case Panicked
    then show ?thesis
      using assms r by (cases ev) (simp_all add: Adapt_step_def)
  qed
qed

lemma Adapt_run_nonempty:
  "Adapt_nonempty s \<Longrightarrow> Adapt_nonempty (Adapt_run s evs)"
  by (induction evs arbitrary: s) (simp_all add: Adapt_step_nonempty)

lemma sample_watch_run:
  "Watch_run FmtText (Watch (absent_pb 0)) [Tick (text_pb 1 ''42'')] =
     \<lparr>w_lastCount = 1, w_recv = [Some ''42''], w_closed = False, w_pc = AtSelect,
      w_reads = 1, w_sent = [Some ''42'']\<rparr>"
  by (simp add: Watch_step_def Watch_tick_def Watch_def Watch_sent_def
      Read_text_pb_42 count_absent_pb count_text_pb)

lemma sample_adapt_run:
  "Adapt_run (AdaptWatchDoubleText (absent_pb 0) 0)
     [Tick (text_pb 1 ''42'', 0), Tick (text_pb 2 ''42'', 300)] =
     \<lparr>lastCount = 2, missCount = 1, lastText = [], lastMill = 300, ti = 100,
      recv = [''42''], closed = False, pc = AtSelect, reads = 2, sent = [''42'']\<rparr>"
  by (simp add: Adapt_step_def Adapt_tick_def AdaptWatchDoubleText_def
      Adapt_sent_def Adapt_accept_def Adapt_miss_def
      Read_text_pb_42 count_absent_pb count_text_pb)

text \<open>
  C9. In every run of a new \<open>Watch\<close> session, each value sent and each value in the
  channel is neither \<open>nil\<close> nor of length 0; in every run of a new
  \<open>AdaptWatchDoubleText\<close> session, each string sent and each string in the channel is
  not empty.
\<close>

theorem emitted_values_nonempty:
  "(\<forall>v \<in> set (w_sent (Watch_run t (Watch pb0) evs)) \<union> set (w_recv (Watch_run t (Watch pb0) evs)).
      v \<noteq> None \<and> v \<noteq> Some []) \<and>
   (\<forall>v \<in> set (sent (Adapt_run (AdaptWatchDoubleText pb1 now) evs')) \<union>
           set (recv (Adapt_run (AdaptWatchDoubleText pb1 now) evs')).
      v \<noteq> [])"
proof -
  have "Watch_nonempty (Watch pb0)"
    by (simp add: Watch_nonempty_def Watch_def)
  then have "Watch_nonempty (Watch_run t (Watch pb0) evs)"
    by (rule Watch_run_nonempty)
  then have w: "\<forall>v \<in> set (w_sent (Watch_run t (Watch pb0) evs)) \<union>
      set (w_recv (Watch_run t (Watch pb0) evs)). v \<noteq> None \<and> v \<noteq> Some []"
    by (auto simp add: Watch_nonempty_def list_all_iff)
  have "Adapt_nonempty (AdaptWatchDoubleText pb1 now)"
    by (simp add: Adapt_nonempty_def AdaptWatchDoubleText_def)
  then have "Adapt_nonempty (Adapt_run (AdaptWatchDoubleText pb1 now) evs')"
    by (rule Adapt_run_nonempty)
  then have a: "\<forall>v \<in> set (sent (Adapt_run (AdaptWatchDoubleText pb1 now) evs')) \<union>
           set (recv (Adapt_run (AdaptWatchDoubleText pb1 now) evs')). v \<noteq> []"
    by (auto simp add: Adapt_nonempty_def list_all_iff)
  from w a show ?thesis by (rule conjI)
qed

theorem emitted_values_nonempty_witness:
  "Some ''42'' \<in> set (w_sent (Watch_run FmtText (Watch (absent_pb 0)) [Tick (text_pb 1 ''42'')])) \<union>
      set (w_recv (Watch_run FmtText (Watch (absent_pb 0)) [Tick (text_pb 1 ''42'')])) \<and>
   ''42'' \<in> set (sent (Adapt_run (AdaptWatchDoubleText (absent_pb 0) 0)
        [Tick (text_pb 1 ''42'', 0), Tick (text_pb 2 ''42'', 300)])) \<union>
      set (recv (Adapt_run (AdaptWatchDoubleText (absent_pb 0) 0)
        [Tick (text_pb 1 ''42'', 0), Tick (text_pb 2 ''42'', 300)])) \<and>
   Some ''42'' \<noteq> None \<and> Some ''42'' \<noteq> Some [] \<and> ''42'' \<noteq> []"
proof -
  have 1: "Some ''42'' \<in> set (w_sent (Watch_run FmtText (Watch (absent_pb 0)) [Tick (text_pb 1 ''42'')])) \<union>
      set (w_recv (Watch_run FmtText (Watch (absent_pb 0)) [Tick (text_pb 1 ''42'')]))"
    by (simp only: sample_watch_run) simp
  have 2: "''42'' \<in> set (sent (Adapt_run (AdaptWatchDoubleText (absent_pb 0) 0)
        [Tick (text_pb 1 ''42'', 0), Tick (text_pb 2 ''42'', 300)])) \<union>
      set (recv (Adapt_run (AdaptWatchDoubleText (absent_pb 0) 0)
        [Tick (text_pb 1 ''42'', 0), Tick (text_pb 2 ''42'', 300)]))"
    by (simp only: sample_adapt_run) simp
  note c = emitted_values_nonempty [of FmtText "absent_pb 0" "[Tick (text_pb 1 ''42'')]"
      "absent_pb 0" 0 "[Tick (text_pb 1 ''42'', 0), Tick (text_pb 2 ''42'', 300)]"]
  from c 1 have 3: "Some ''42'' \<noteq> None \<and> Some ''42'' \<noteq> Some []"
    by blast
  from c 2 have 4: "''42'' \<noteq> []"
    by blast
  from 1 2 3 4 show ?thesis by blast
qed

section \<open>The double-submit scenario\<close>

lemma Adapt_run_append: "Adapt_run s (xs @ ys) = Adapt_run (Adapt_run s xs) ys"
  by (induction xs arbitrary: s) simp_all

lemma Adapt_step_idle:
  assumes "pc s = AtSelect" and "idle (lastCount s) ev"
  shows "pc (Adapt_step s ev) = AtSelect \<and>
         lastCount (Adapt_step s ev) = lastCount s \<and>
         lastText (Adapt_step s ev) = lastText s \<and>
         lastMill (Adapt_step s ev) = lastMill s \<and>
         sent (Adapt_step s ev) = sent s \<and>
         length (recv (Adapt_step s ev)) \<le> length (recv s)"
proof (cases ev)
  case (Tick i)
  obtain pb now where i: "i = (pb, now)" by (cases i)
  with assms Tick have "Adapt_step s ev = Adapt_miss s (lastCount s)"
    by (simp add: Adapt_step_def Adapt_tick_def)
  then show ?thesis
    using assms(1) by (simp add: Adapt_miss_fields)
next
  case CtxDone
  then show ?thesis using assms by simp
next
  case Receive
  then show ?thesis using assms by (simp add: Adapt_step_def)
qed

lemma Adapt_run_idle:
  assumes "pc s = AtSelect" and "list_all (idle (lastCount s)) evs"
  shows "pc (Adapt_run s evs) = AtSelect \<and>
         lastCount (Adapt_run s evs) = lastCount s \<and>
         lastText (Adapt_run s evs) = lastText s \<and>
         lastMill (Adapt_run s evs) = lastMill s \<and>
         sent (Adapt_run s evs) = sent s \<and>
         length (recv (Adapt_run s evs)) \<le> length (recv s)"
  using assms
proof (induction evs arbitrary: s)
  case Nil
  then show ?case by simp
next
  case (Cons ev evs)
  from Cons.prems have i: "idle (lastCount s) ev" and r: "list_all (idle (lastCount s)) evs"
    by simp_all
  note st = Adapt_step_idle [OF Cons.prems(1) i]
  from st r have "list_all (idle (lastCount (Adapt_step s ev))) evs"
    by simp
  with st have "pc (Adapt_run (Adapt_step s ev) evs) = AtSelect \<and>
         lastCount (Adapt_run (Adapt_step s ev) evs) = lastCount (Adapt_step s ev) \<and>
         lastText (Adapt_run (Adapt_step s ev) evs) = lastText (Adapt_step s ev) \<and>
         lastMill (Adapt_run (Adapt_step s ev) evs) = lastMill (Adapt_step s ev) \<and>
         sent (Adapt_run (Adapt_step s ev) evs) = sent (Adapt_step s ev) \<and>
         length (recv (Adapt_run (Adapt_step s ev) evs)) \<le> length (recv (Adapt_step s ev))"
    by (intro Cons.IH) simp_all
  with st show ?case by simp
qed

text \<open>
  C4. On a new session, let the text \<open>42\<close> arrive as a detected change at time \<open>T\<close>,
  again at \<open>T + 300\<close> and a third time at \<open>T + 310\<close>, with any idle events before,
  between and after. Nothing is emitted after the first arrival; after the second, exactly
  one \<open>42\<close> has been emitted and the pending candidate is empty; the third arrival
  emits nothing more.
\<close>

theorem double_submit_confirms_once:
  assumes c1: "clipboard_change_count pb1 \<noteq> clipboard_change_count pb0"
    and c2: "clipboard_change_count pb2 \<noteq> clipboard_change_count pb1"
    and c3: "clipboard_change_count pb3 \<noteq> clipboard_change_count pb2"
    and r1: "Read pb1 FmtText = Returns (Some ''42'', e1)"
    and r2: "Read pb2 FmtText = Returns (Some ''42'', e2)"
    and r3: "Read pb3 FmtText = Returns (Some ''42'', e3)"
    and q0: "list_all (idle (clipboard_change_count pb0)) q0"
    and q1: "list_all (idle (clipboard_change_count pb1)) q1"
    and q2: "list_all (idle (clipboard_change_count pb2)) q2"
    and q3: "list_all (idle (clipboard_change_count pb3)) q3"
  shows "sent (Adapt_run (AdaptWatchDoubleText pb0 t0) (q0 @ Tick (pb1, T) # q1)) = [] \<and>
         sent (Adapt_run (AdaptWatchDoubleText pb0 t0)
           (q0 @ Tick (pb1, T) # q1 @ Tick (pb2, T + 300) # q2)) = [''42''] \<and>
         lastText (Adapt_run (AdaptWatchDoubleText pb0 t0)
           (q0 @ Tick (pb1, T) # q1 @ Tick (pb2, T + 300) # q2)) = [] \<and>
         sent (Adapt_run (AdaptWatchDoubleText pb0 t0)
           (q0 @ Tick (pb1, T) # q1 @ Tick (pb2, T + 300) # q2 @ Tick (pb3, T + 310) # q3))
           = [''42'']"
proof -
  define a0 where "a0 = Adapt_run (AdaptWatchDoubleText pb0 t0) q0"
  define b1 where "b1 = Adapt_step a0 (Tick (pb1, T))"
  define a1 where "a1 = Adapt_run b1 q1"
  define b2 where "b2 = Adapt_step a1 (Tick (pb2, T + 300))"
  define a2 where "a2 = Adapt_run b2 q2"
  define b3 where "b3 = Adapt_step a2 (Tick (pb3, T + 310))"
  define a3 where "a3 = Adapt_run b3 q3"
  have i: "pc (AdaptWatchDoubleText pb0 t0) = AtSelect"
    "lastCount (AdaptWatchDoubleText pb0 t0) = clipboard_change_count pb0"
    "lastText (AdaptWatchDoubleText pb0 t0) = []"
    "sent (AdaptWatchDoubleText pb0 t0) = []"
    "recv (AdaptWatchDoubleText pb0 t0) = []"
    by (simp_all add: AdaptWatchDoubleText_def)
  have a0: "pc a0 = AtSelect" "lastCount a0 = clipboard_change_count pb0"
    "lastText a0 = []" "sent a0 = []" "recv a0 = []"
    using Adapt_run_idle [of "AdaptWatchDoubleText pb0 t0" q0] q0 i
    by (simp_all add: a0_def)
  have b1: "b1 = a0\<lparr>reads := reads a0 + 1, lastText := ''42'', lastMill := T,
             lastCount := clipboard_change_count pb1, ti := 100, missCount := 1\<rparr>"
    unfolding b1_def using a0 c1 r1 by (intro Adapt_step_candidate) simp_all
  have a1: "pc a1 = AtSelect" "lastCount a1 = clipboard_change_count pb1"
    "lastText a1 = ''42''" "lastMill a1 = T" "sent a1 = []" "recv a1 = []"
    using Adapt_run_idle [of b1 q1] q1 a0 by (simp_all add: a1_def b1)
  have b2: "b2 = a1\<lparr>reads := reads a1 + 1, recv := [''42''], sent := sent a1 @ [''42''],
             lastText := [], lastMill := T + 300, lastCount := clipboard_change_count pb2,
             ti := 100, missCount := 1\<rparr>"
    unfolding b2_def using a1 c2 r2 by (intro Adapt_step_confirm) simp_all
  have a2: "pc a2 = AtSelect" "lastCount a2 = clipboard_change_count pb2"
    "lastText a2 = []" "sent a2 = [''42'']"
    using Adapt_run_idle [of b2 q2] q2 a1 by (simp_all add: a2_def b2)
  have b3: "b3 = a2\<lparr>reads := reads a2 + 1, lastText := ''42'', lastMill := T + 310,
             lastCount := clipboard_change_count pb3, ti := 100, missCount := 1\<rparr>"
    unfolding b3_def using a2 c3 r3 by (intro Adapt_step_candidate) simp_all
  have a3: "sent a3 = [''42'']"
    using Adapt_run_idle [of b3 q3] q3 a2 by (simp_all add: a3_def b3)
  have e1: "Adapt_run (AdaptWatchDoubleText pb0 t0) (q0 @ Tick (pb1, T) # q1) = a1"
    by (simp add: Adapt_run_append a0_def b1_def a1_def)
  have e2: "Adapt_run (AdaptWatchDoubleText pb0 t0)
           (q0 @ Tick (pb1, T) # q1 @ Tick (pb2, T + 300) # q2) = a2"
    by (simp add: Adapt_run_append a0_def b1_def a1_def b2_def a2_def)
  have e3: "Adapt_run (AdaptWatchDoubleText pb0 t0)
           (q0 @ Tick (pb1, T) # q1 @ Tick (pb2, T + 300) # q2 @ Tick (pb3, T + 310) # q3) = a3"
    by (simp add: Adapt_run_append a0_def b1_def a1_def b2_def a2_def b3_def a3_def)
  show ?thesis
    using a1(5) a2(3,4) a3 by (simp only: e1 e2 e3)
qed


theorem double_submit_confirms_once_witness:
  "clipboard_change_count (text_pb 1 ''42'') \<noteq> clipboard_change_count (absent_pb 0) \<and>
   clipboard_change_count (text_pb 2 ''42'') \<noteq> clipboard_change_count (text_pb 1 ''42'') \<and>
   clipboard_change_count (text_pb 3 ''42'') \<noteq> clipboard_change_count (text_pb 2 ''42'') \<and>
   Read (text_pb 1 ''42'') FmtText = Returns (Some ''42'', None) \<and>
   Read (text_pb 2 ''42'') FmtText = Returns (Some ''42'', None) \<and>
   Read (text_pb 3 ''42'') FmtText = Returns (Some ''42'', None) \<and>
   list_all (idle (clipboard_change_count (absent_pb 0))) [] \<and>
   list_all (idle (clipboard_change_count (text_pb 1 ''42'')))
     [Tick (text_pb 1 ''42'', 100), Tick (text_pb 1 ''42'', 200)] \<and>
   list_all (idle (clipboard_change_count (text_pb 2 ''42''))) [] \<and>
   list_all (idle (clipboard_change_count (text_pb 3 ''42''))) [Receive] \<and>
   sent (Adapt_run (AdaptWatchDoubleText (absent_pb 0) 0)
     [Tick (text_pb 1 ''42'', 0), Tick (text_pb 1 ''42'', 100), Tick (text_pb 1 ''42'', 200)])
     = [] \<and>
   sent (Adapt_run (AdaptWatchDoubleText (absent_pb 0) 0)
     [Tick (text_pb 1 ''42'', 0), Tick (text_pb 1 ''42'', 100), Tick (text_pb 1 ''42'', 200),
      Tick (text_pb 2 ''42'', 300)]) = [''42''] \<and>
   lastText (Adapt_run (AdaptWatchDoubleText (absent_pb 0) 0)
     [Tick (text_pb 1 ''42'', 0), Tick (text_pb 1 ''42'', 100), Tick (text_pb 1 ''42'', 200),
      Tick (text_pb 2 ''42'', 300)]) = [] \<and>
   sent (Adapt_run (AdaptWatchDoubleText (absent_pb 0) 0)
     [Tick (text_pb 1 ''42'', 0), Tick (text_pb 1 ''42'', 100), Tick (text_pb 1 ''42'', 200),
      Tick (text_pb 2 ''42'', 300), Tick (text_pb 3 ''42'', 310), Receive]) = [''42'']"
proof -
  have c1: "clipboard_change_count (text_pb 1 ''42'') \<noteq> clipboard_change_count (absent_pb 0)"
    and c2: "clipboard_change_count (text_pb 2 ''42'') \<noteq> clipboard_change_count (text_pb 1 ''42'')"
    and c3: "clipboard_change_count (text_pb 3 ''42'') \<noteq> clipboard_change_count (text_pb 2 ''42'')"
    by (simp_all add: count_text_pb count_absent_pb)
  have r1: "Read (text_pb 1 ''42'') FmtText = Returns (Some ''42'', None)"
    and r2: "Read (text_pb 2 ''42'') FmtText = Returns (Some ''42'', None)"
    and r3: "Read (text_pb 3 ''42'') FmtText = Returns (Some ''42'', None)"
    by (rule Read_text_pb_42)+
  have q0: "list_all (idle (clipboard_change_count (absent_pb 0))) []"
    and q1: "list_all (idle (clipboard_change_count (text_pb 1 ''42'')))
      [Tick (text_pb 1 ''42'', 100), Tick (text_pb 1 ''42'', 200)]"
    and q2: "list_all (idle (clipboard_change_count (text_pb 2 ''42''))) []"
    and q3: "list_all (idle (clipboard_change_count (text_pb 3 ''42''))) [Receive]"
    by (simp_all add: count_text_pb)
  note c = double_submit_confirms_once [OF c1 c2 c3 r1 r2 r3 q0 q1 q2 q3, of 0 0,
      simplified append_Nil append_Cons add_0]
  show ?thesis
    using c1 c2 c3 r1 r2 r3 q0 q1 q2 q3 c by blast
qed

section \<open>The steps of \<open>AdaptWatchDoubleText\<close>\<close>

lemma Adapt_miss_ti: "ti (Adapt_miss s this) = ti s \<or> ti (Adapt_miss s this) = 200"
  by (simp add: Adapt_miss_def Let_def)

lemma Adapt_tick_unchanged:
  "lastCount s = clipboard_change_count pb \<Longrightarrow> Adapt_tick s pb now = Adapt_miss s (lastCount s)"
  by (simp add: Adapt_tick_def)

lemma Adapt_tick_panics:
  "lastCount s \<noteq> clipboard_change_count pb \<Longrightarrow> Read pb FmtText = Panics \<Longrightarrow>
   Adapt_tick s pb now = s\<lparr>reads := reads s + 1, pc := Panicked\<rparr>"
  by (simp add: Adapt_tick_def)

lemma Adapt_tick_nil:
  "lastCount s \<noteq> clipboard_change_count pb \<Longrightarrow> Read pb FmtText = Returns (None, e) \<Longrightarrow>
   Adapt_tick s pb now = s\<lparr>reads := reads s + 1\<rparr>"
  by (simp add: Adapt_tick_def)

lemma Adapt_tick_changed:
  assumes "lastCount s \<noteq> clipboard_change_count pb"
    and "Read pb FmtText = Returns (Some tx, e)"
  shows "Adapt_tick s pb now =
     (if tx = [] then s\<lparr>reads := reads s + 1\<rparr>
      else if tx = lastText s \<and> now - lastMill s < 500 then
        (if length (recv s) < 1
         then Adapt_sent (s\<lparr>reads := reads s + 1\<rparr>) tx (clipboard_change_count pb) now
         else s\<lparr>reads := reads s + 1, pc := AtSend (tx, clipboard_change_count pb, now)\<rparr>)
      else Adapt_accept (s\<lparr>reads := reads s + 1, lastText := tx\<rparr>)
             (clipboard_change_count pb) now)"
  using assms by (simp add: Adapt_tick_def Let_def)

text \<open>What a tick at the select does to the fields that matter here, by the result of the read.\<close>

lemma Adapt_tick_effect:
  assumes "pc s = AtSelect"
  shows "(sent (Adapt_tick s pb now) = sent s \<and>
          (ti (Adapt_tick s pb now) = ti s \<or> ti (Adapt_tick s pb now) = 200 \<or>
           (ti (Adapt_tick s pb now) = 100 \<and> lastCount s \<noteq> clipboard_change_count pb \<and>
            (\<exists>tx e. Read pb FmtText = Returns (Some tx, e) \<and> tx \<noteq> [])))
          \<and> (case pc (Adapt_tick s pb now) of
                AtSend (tx, this, m) \<Rightarrow> tx \<noteq> [] \<and> tx = lastText (Adapt_tick s pb now) \<and>
                   m - lastMill (Adapt_tick s pb now) < 500
              | _ \<Rightarrow> True)) \<or>
         (sent (Adapt_tick s pb now) = sent s @ [lastText s] \<and> lastText s \<noteq> [] \<and>
          lastCount s \<noteq> clipboard_change_count pb \<and>
          (\<exists>e. Read pb FmtText = Returns (Some (lastText s), e)) \<and>
          now - lastMill s < 500 \<and> ti (Adapt_tick s pb now) = 100 \<and>
          pc (Adapt_tick s pb now) = AtSelect)"
proof (cases "lastCount s = clipboard_change_count pb")
  case True
  then show ?thesis
    using assms Adapt_miss_ti [of s "lastCount s"]
    by (auto simp add: Adapt_tick_unchanged Adapt_miss_fields)
next
  case False
  show ?thesis
  proof (cases "Read pb FmtText")
    case Panics
    then show ?thesis
      using False by (simp add: Adapt_tick_panics)
  next
    case (Returns r)
    obtain b e where r: "r = (b, e)" by (cases r)
    show ?thesis
    proof (cases b)
      case None
      then show ?thesis
        using False Returns r assms by (simp add: Adapt_tick_nil)
    next
      case (Some tx)
      with Returns r have rd: "Read pb FmtText = Returns (Some tx, e)"
        by simp
      note t = Adapt_tick_changed [OF False rd, of now]
      show ?thesis
      proof (cases "tx = []")
        case True
        then show ?thesis using t assms by simp
      next
        case ne: False
        show ?thesis
        proof (cases "tx = lastText s")
          case same: True
          show ?thesis
          proof (cases "now - lastMill s < 500")
            case near: True
            show ?thesis
            proof (cases "length (recv s) < 1")
              case True
              then show ?thesis
                using t ne same near False rd
                by (simp add: Adapt_sent_fields Adapt_sent_def Adapt_accept_fields)
            next
              case False
              then show ?thesis
                using t ne same near by simp
            qed
          next
            case far: False
            then show ?thesis
              using t ne False rd assms by (simp add: Adapt_accept_fields)
          qed
        next
          case False
          then show ?thesis
            using t ne \<open>lastCount s \<noteq> clipboard_change_count pb\<close> rd assms
            by (simp add: Adapt_accept_fields)
        qed
      qed
    qed
  qed
qed





lemma Adapt_step_fast:
  assumes "ti (Adapt_step s ev) = 100" and "ti s \<noteq> 100"
  shows "(\<exists>pb now tx e. ev = Tick (pb, now) \<and> pc s = AtSelect \<and>
            lastCount s \<noteq> clipboard_change_count pb \<and>
            Read pb FmtText = Returns (Some tx, e) \<and> tx \<noteq> []) \<or>
         (\<exists>tx this m. ev = Receive \<and> pc s = AtSend (tx, this, m))"
proof (cases "pc s")
  case AtSelect
  show ?thesis
  proof (cases ev)
    case (Tick i)
    obtain pb now where i: "i = (pb, now)" by (cases i)
    have st: "Adapt_step s ev = Adapt_tick s pb now"
      using AtSelect Tick i by (simp add: Adapt_step_def)
    from Adapt_tick_effect [OF AtSelect, of pb now] assms st
    have "lastCount s \<noteq> clipboard_change_count pb \<and>
        (\<exists>tx e. Read pb FmtText = Returns (Some tx, e) \<and> tx \<noteq> [])"
      by auto
    then show ?thesis
      using Tick i AtSelect by auto
  next
    case CtxDone
    then show ?thesis
      using AtSelect assms by (simp add: Adapt_step_def)
  next
    case Receive
    then show ?thesis
      using AtSelect assms by (simp add: Adapt_step_def)
  qed
next
  case (AtSend k)
  obtain tx this m where k: "k = (tx, this, m)" by (cases k)
  show ?thesis
  proof (cases ev)
    case Receive
    then show ?thesis
      using AtSend k by simp
  next
    case (Tick i)
    then show ?thesis
      using AtSend k assms by (simp add: Adapt_step_def)
  next
    case CtxDone
    then show ?thesis
      using AtSend k assms by (simp add: Adapt_step_def)
  qed
next
  case Exited
  then show ?thesis
    using assms by (cases ev) (simp_all add: Adapt_step_def)
next
  case Panicked
  then show ?thesis
    using assms by (cases ev) (simp_all add: Adapt_step_def)
qed

lemma Adapt_step_accepts_fast:
  assumes "pc s = AtSelect"
    and "lastCount s \<noteq> clipboard_change_count pb"
    and "Read pb FmtText = Returns (Some tx, e)"
    and "tx \<noteq> []"
    and "pc (Adapt_step s (Tick (pb, now))) = AtSelect"
  shows "ti (Adapt_step s (Tick (pb, now))) = 100"
proof -
  have st: "Adapt_step s (Tick (pb, now)) = Adapt_tick s pb now"
    using assms(1) by (simp add: Adapt_step_def)
  note t = Adapt_tick_changed [OF assms(2,3), of now]
  show ?thesis
  proof (cases "tx = lastText s \<and> now - lastMill s < 500")
    case True
    show ?thesis
    proof (cases "length (recv s) < 1")
      case r: True
      with True t assms(4) show ?thesis
        by (simp add: st Adapt_sent_def Adapt_accept_fields)
    next
      case False
      with True t assms(4,5) show ?thesis
        by (simp add: st)
    qed
  next
    case False
    with t assms(4) have "Adapt_tick s pb now =
        Adapt_accept (s\<lparr>reads := reads s + 1, lastText := tx\<rparr>) (clipboard_change_count pb) now"
      by auto
    then show ?thesis
      by (simp add: st Adapt_accept_fields)
  qed
qed

lemma Adapt_run_idle_slow:
  assumes "pc s = AtSelect" and "ti s = 200" and "list_all (idle (lastCount s)) evs"
  shows "ti (Adapt_run s evs) = 200"
  using assms
proof (induction evs arbitrary: s)
  case Nil
  then show ?case by simp
next
  case (Cons ev evs)
  from Cons.prems have i: "idle (lastCount s) ev" and r: "list_all (idle (lastCount s)) evs"
    by simp_all
  note st = Adapt_step_idle [OF Cons.prems(1) i]
  have "ti (Adapt_step s ev) \<noteq> 100"
  proof
    assume "ti (Adapt_step s ev) = 100"
    with Cons.prems(2) Adapt_step_fast [of s ev] Cons.prems(1) i show False
      by auto
  qed
  have t: "ti (Adapt_step s ev) = 200"
  proof (cases ev)
    case (Tick j)
    obtain pb now where j: "j = (pb, now)" by (cases j)
    with Tick i Cons.prems(1) have "Adapt_step s ev = Adapt_miss s (lastCount s)"
      by (simp add: Adapt_step_def Adapt_tick_def)
    then show ?thesis
      using Adapt_miss_ti [of s "lastCount s"] Cons.prems(2) by auto
  next
    case CtxDone
    then show ?thesis using i by simp
  next
    case Receive
    then show ?thesis using Cons.prems(1,2) by (simp add: Adapt_step_def)
  qed
  from st r have "list_all (idle (lastCount (Adapt_step s ev))) evs"
    by simp
  with st t show ?case
    using Cons.IH [of "Adapt_step s ev"] by simp
qed

lemma sample_adapt_candidate:
  "Adapt_run (AdaptWatchDoubleText (absent_pb 0) 0) [Tick (text_pb 1 ''42'', 0)] =
     \<lparr>lastCount = 1, missCount = 1, lastText = ''42'', lastMill = 0, ti = 100,
      recv = [], closed = False, pc = AtSelect, reads = 1, sent = []\<rparr>"
  by (simp add: Adapt_step_def Adapt_tick_def AdaptWatchDoubleText_def
      Adapt_accept_def Adapt_miss_def Read_text_pb_42 count_absent_pb count_text_pb)

lemma sample_adapt_idle:
  "Adapt_run (AdaptWatchDoubleText (absent_pb 0) 0) [Tick (absent_pb 0, 100), Receive] =
     \<lparr>lastCount = 0, missCount = 1, lastText = [], lastMill = 0, ti = 200,
      recv = [], closed = False, pc = AtSelect, reads = 0, sent = []\<rparr>"
  by (simp add: Adapt_step_def Adapt_tick_def AdaptWatchDoubleText_def
      Adapt_miss_def count_absent_pb)

section \<open>The poll interval of \<open>AdaptWatchDoubleText\<close>\<close>

text \<open>
  C7, as stated: the poll interval of a new session is 100ms. It fails: the ticker is
  created with 200ms.
\<close>

theorem AdaptWatchDoubleText_starts_fast_counterexample:
  "ti (AdaptWatchDoubleText (absent_pb 0) 0) \<noteq> 100"
  by (simp add: AdaptWatchDoubleText_def)

text \<open>
  C7, amended: the poll interval of a new session is the slow rate of 200ms, and it is
  still 200ms after any run of ticks that find the counter unchanged and of receives. A
  step brings the interval to 100ms only by accepting a change: it is a tick at the
  \<open>select\<close> that finds the counter changed and reads a text that is not empty, or it
  completes the parked send of such a text. A tick that accepts a change and does not park
  ends with the interval at 100ms.
\<close>

theorem AdaptWatchDoubleText_starts_slow:
  "ti (AdaptWatchDoubleText pb0 now0) = 200 \<and>
   (list_all (idle (clipboard_change_count pb0)) evs \<longrightarrow>
      ti (Adapt_run (AdaptWatchDoubleText pb0 now0) evs) = 200) \<and>
   (ti (Adapt_step s ev) = 100 \<and> ti s \<noteq> 100 \<longrightarrow>
      (\<exists>pb now tx e. ev = Tick (pb, now) \<and> pc s = AtSelect \<and>
          lastCount s \<noteq> clipboard_change_count pb \<and>
          Read pb FmtText = Returns (Some tx, e) \<and> tx \<noteq> []) \<or>
      (\<exists>tx this m. ev = Receive \<and> pc s = AtSend (tx, this, m))) \<and>
   (pc a = AtSelect \<and> lastCount a \<noteq> clipboard_change_count pb1 \<and>
    Read pb1 FmtText = Returns (Some tx1, e1) \<and> tx1 \<noteq> [] \<and>
    pc (Adapt_step a (Tick (pb1, now1))) = AtSelect \<longrightarrow>
      ti (Adapt_step a (Tick (pb1, now1))) = 100)"
proof -
  have 1: "ti (AdaptWatchDoubleText pb0 now0) = 200"
    by (simp add: AdaptWatchDoubleText_def)
  have 2: "list_all (idle (clipboard_change_count pb0)) evs \<longrightarrow>
      ti (Adapt_run (AdaptWatchDoubleText pb0 now0) evs) = 200"
  proof
    assume "list_all (idle (clipboard_change_count pb0)) evs"
    then show "ti (Adapt_run (AdaptWatchDoubleText pb0 now0) evs) = 200"
      by (intro Adapt_run_idle_slow) (simp_all add: AdaptWatchDoubleText_def)
  qed
  have 3: "ti (Adapt_step s ev) = 100 \<and> ti s \<noteq> 100 \<longrightarrow>
      (\<exists>pb now tx e. ev = Tick (pb, now) \<and> pc s = AtSelect \<and>
          lastCount s \<noteq> clipboard_change_count pb \<and>
          Read pb FmtText = Returns (Some tx, e) \<and> tx \<noteq> []) \<or>
      (\<exists>tx this m. ev = Receive \<and> pc s = AtSend (tx, this, m))"
    using Adapt_step_fast [of s ev] by blast
  have 4: "pc a = AtSelect \<and> lastCount a \<noteq> clipboard_change_count pb1 \<and>
    Read pb1 FmtText = Returns (Some tx1, e1) \<and> tx1 \<noteq> [] \<and>
    pc (Adapt_step a (Tick (pb1, now1))) = AtSelect \<longrightarrow>
      ti (Adapt_step a (Tick (pb1, now1))) = 100"
    using Adapt_step_accepts_fast [of a pb1 tx1 e1 now1] by blast
  from 1 2 3 4 show ?thesis by blast
qed

theorem AdaptWatchDoubleText_starts_slow_witness:
  "list_all (idle (clipboard_change_count (absent_pb 0))) [Tick (absent_pb 0, 100), Receive] \<and>
   ti (Adapt_run (AdaptWatchDoubleText (absent_pb 0) 0) [Tick (absent_pb 0, 100), Receive]) = 200 \<and>
   ti (AdaptWatchDoubleText (absent_pb 0) 0) \<noteq> 100 \<and>
   pc (AdaptWatchDoubleText (absent_pb 0) 0) = AtSelect \<and>
   lastCount (AdaptWatchDoubleText (absent_pb 0) 0) \<noteq> clipboard_change_count (text_pb 1 ''42'') \<and>
   Read (text_pb 1 ''42'') FmtText = Returns (Some ''42'', None) \<and>
   ''42'' \<noteq> [] \<and>
   pc (Adapt_step (AdaptWatchDoubleText (absent_pb 0) 0) (Tick (text_pb 1 ''42'', 0))) = AtSelect \<and>
   ti (Adapt_step (AdaptWatchDoubleText (absent_pb 0) 0) (Tick (text_pb 1 ''42'', 0))) = 100"
proof -
  have i: "list_all (idle (clipboard_change_count (absent_pb 0))) [Tick (absent_pb 0, 100), Receive]"
    by (simp add: count_absent_pb)
  have n: "ti (AdaptWatchDoubleText (absent_pb 0) 0) \<noteq> 100"
    and p: "pc (AdaptWatchDoubleText (absent_pb 0) 0) = AtSelect"
    and l: "lastCount (AdaptWatchDoubleText (absent_pb 0) 0)
        \<noteq> clipboard_change_count (text_pb 1 ''42'')"
    by (simp_all add: AdaptWatchDoubleText_def count_absent_pb count_text_pb)
  have r: "Read (text_pb 1 ''42'') FmtText = Returns (Some ''42'', None)"
    by (rule Read_text_pb_42)
  have e: "''42'' \<noteq> []"
    by simp
  have "Adapt_step (AdaptWatchDoubleText (absent_pb 0) 0) (Tick (text_pb 1 ''42'', 0)) =
      Adapt_run (AdaptWatchDoubleText (absent_pb 0) 0) [Tick (text_pb 1 ''42'', 0)]"
    by simp
  then have q: "pc (Adapt_step (AdaptWatchDoubleText (absent_pb 0) 0) (Tick (text_pb 1 ''42'', 0)))
      = AtSelect"
    by (simp only: sample_adapt_candidate) simp
  note c = AdaptWatchDoubleText_starts_slow [of "absent_pb 0" 0 "[Tick (absent_pb 0, 100), Receive]"
      "AdaptWatchDoubleText (absent_pb 0) 0" "Tick (text_pb 1 ''42'', 0)"
      "AdaptWatchDoubleText (absent_pb 0) 0" "text_pb 1 ''42''" "''42''" None 0]
  show ?thesis
    using i n p l r e q c by blast
qed

section \<open>\<open>Watch\<close> on the text format\<close>




end
